theory Spec2Isabelle
  imports Main "HOL-Library.Word"
begin

unbundle bit_operations_syntax

section \<open>Data model\<close>

type_synonym uint32_t = "32 word"

text \<open>
  Modelled from the spec: the header gpio_hal.h that declares \<open>gpio_mask_t\<close> is not among
  the sources. The spec describes a Sample as a fixed-width 32-bit bitfield, and the tests
  pass plain unsigned constants for it, so the type is taken to be a 32-bit unsigned word.
\<close>

type_synonym gpio_mask_t = "32 word"

text \<open>
  The functions of the input source, of the scheduler and of the consumer are external
  (\<open>gpio_hal.h\<close>, \<open>rtos_api.h\<close>, \<open>report_event_count\<close>). The model keeps them abstract:
  every call the monitor makes to one of them is appended, with its arguments, to a log.
  Function pointers handed to the collaborators are named by an enumeration.
\<close>

datatype callback = Gpio_change_callback

datatype task_fn = Monitor_task

datatype hal_call =
    Rtos_mutex_lock
  | Rtos_mutex_unlock
  | Rtos_task_delay_ms uint32_t
  | Report_event_count uint32_t
  | Gpio_read_input
  | Gpio_register_callback callback
  | Rtos_task_create task_fn

text \<open>
  The three file-scope variables of the implementation, and the log of external calls.
\<close>

record monitor =
  event_count :: uint32_t
  monitored_mask :: uint32_t
  previous_state :: gpio_mask_t
  hal_calls :: "hal_call list"

text \<open>The static initialisers: all three variables start at zero.\<close>

definition power_on :: monitor where
  "power_on = \<lparr>event_count = 0, monitored_mask = 0, previous_state = 0, hal_calls = []\<rparr>"

definition call :: "hal_call \<Rightarrow> monitor \<Rightarrow> monitor" where
  "call c s = s\<lparr>hal_calls := hal_calls s @ [c]\<rparr>"

section \<open>The edge-detection callback\<close>

text \<open>
  The loop \<open>for (i = 0; i < 32; ++i) if (rising_edges & (1u << i)) ++event_count;\<close>
  with the counter passed through.
\<close>

function count_loop :: "nat \<Rightarrow> gpio_mask_t \<Rightarrow> uint32_t \<Rightarrow> uint32_t" where
  "count_loop i rising_edges ec =
     (if i < 32
      then count_loop (i + 1) rising_edges
             (if rising_edges AND push_bit i 1 \<noteq> 0 then ec + 1 else ec)
      else ec)"
  by pat_completeness auto
termination
  by (relation "measure (\<lambda>(i, r, ec). 32 - i)") auto

declare count_loop.simps [simp del]

definition gpio_change_callback :: "gpio_mask_t \<Rightarrow> monitor \<Rightarrow> monitor" where
  "gpio_change_callback new_state s =
     (let rising_edges = (NOT (previous_state s) AND new_state) AND monitored_mask s;
          s1 = s\<lparr>previous_state := new_state\<rparr>
      in if rising_edges \<noteq> 0
         then (let s2 = call Rtos_mutex_lock s1;
                   s3 = s2\<lparr>event_count := count_loop 0 rising_edges (event_count s2)\<rparr>
               in call Rtos_mutex_unlock s3)
         else s1)"

section \<open>The reporter task\<close>

text \<open>One pass through the body of the \<open>while (1)\<close> loop of \<open>monitor_task\<close>.\<close>

definition monitor_task_body :: "monitor \<Rightarrow> monitor" where
  "monitor_task_body s =
     (let s1 = call (Rtos_task_delay_ms 1000) s;
          s2 = call Rtos_mutex_lock s1;
          count = event_count s2;
          s3 = s2\<lparr>event_count := 0\<rparr>;
          s4 = call Rtos_mutex_unlock s3
      in call (Report_event_count count) s4)"

text \<open>
  The task never returns. Its first \<open>n\<close> periods, with no notification in between, are
  \<open>n\<close> passes through the body; runs in which notifications arrive between the periods
  are described by \<open>run\<close> below.
\<close>

fun monitor_task :: "nat \<Rightarrow> monitor \<Rightarrow> monitor" where
  "monitor_task 0 s = s"
| "monitor_task (Suc n) s = monitor_task n (monitor_task_body s)"

text \<open>The drain of the test suite: the same read and reset, without the delay.\<close>

definition trigger_event_report_for_test :: "monitor \<Rightarrow> monitor" where
  "trigger_event_report_for_test s =
     (let s1 = call Rtos_mutex_lock s;
          count = event_count s1;
          s2 = s1\<lparr>event_count := 0\<rparr>;
          s3 = call Rtos_mutex_unlock s2
      in call (Report_event_count count) s3)"

section \<open>Initialisation\<close>

text \<open>
  \<open>input\<close> is the value that the call \<open>gpio_read_input()\<close> returns.
\<close>

definition event_monitor_init :: "uint32_t \<Rightarrow> gpio_mask_t \<Rightarrow> monitor \<Rightarrow> monitor" where
  "event_monitor_init mask_arg input s =
     (let s1 = s\<lparr>monitored_mask := mask_arg\<rparr>;
          s2 = (call Gpio_read_input s1)\<lparr>previous_state := input\<rparr>;
          s3 = call (Gpio_register_callback Gpio_change_callback) s2
      in call (Rtos_task_create Monitor_task) s3)"

section \<open>Runs of the whole component\<close>

text \<open>
  Both the increment batch and the drain are bracketed by the mutex, so a run of the
  component is taken as a sequence of whole notifications and whole drains in some order.
  Schedules of single statements are treated in the last sections.
\<close>

datatype step = Notification gpio_mask_t | Period | Trigger_report

fun exec :: "step \<Rightarrow> monitor \<Rightarrow> monitor" where
  "exec (Notification new_state) s = gpio_change_callback new_state s"
| "exec Period s = monitor_task_body s"
| "exec Trigger_report s = trigger_event_report_for_test s"

fun run :: "step list \<Rightarrow> monitor \<Rightarrow> monitor" where
  "run [] s = s"
| "run (x # xs) s = run xs (exec x s)"

text \<open>The values handed to \<open>report_event_count\<close>, in order.\<close>

fun reported :: "hal_call list \<Rightarrow> uint32_t list" where
  "reported [] = []"
| "reported (Report_event_count c # cs) = c # reported cs"
| "reported (_ # cs) = reported cs"

section \<open>Specification-side notions\<close>

text \<open>The population count of a word: the number of bit positions that hold a 1.\<close>

definition popcount :: "'a::len word \<Rightarrow> nat" where
  "popcount w = length (filter (bit w) [0..<LENGTH('a)])"

text \<open>The spec's \<open>rising = (~previous) & new & mask\<close>.\<close>

definition rising :: "gpio_mask_t \<Rightarrow> gpio_mask_t \<Rightarrow> uint32_t \<Rightarrow> gpio_mask_t" where
  "rising prev new m = (NOT prev AND new) AND m"

text \<open>The spec's alternative to the loop: one addition of the population count.\<close>

definition add_popcount :: "gpio_mask_t \<Rightarrow> uint32_t \<Rightarrow> uint32_t" where
  "add_popcount rising_edges ec = ec + of_nat (popcount rising_edges)"

text \<open>
  The event counts \<open>c_i\<close> of the notifications of a run, in order: each is the number of
  rising edges that the notification finds against the sample stored at that moment.
\<close>

fun increments :: "step list \<Rightarrow> monitor \<Rightarrow> nat list" where
  "increments [] s = []"
| "increments (Notification n # xs) s =
     popcount (rising (previous_state s) n (monitored_mask s))
       # increments xs (exec (Notification n) s)"
| "increments (x # xs) s = increments xs (exec x s)"

text \<open>
  The number of notifications of a run whose batch carries the 32-bit counter past
  \<open>2 ^ 32 - 1\<close>.
\<close>

fun wraps :: "step list \<Rightarrow> monitor \<Rightarrow> nat" where
  "wraps [] s = 0"
| "wraps (Notification n # xs) s =
     (if 2 ^ 32 \<le> unat (event_count s)
                    + popcount (rising (previous_state s) n (monitored_mask s))
      then 1 else 0)
       + wraps xs (exec (Notification n) s)"
| "wraps (x # xs) s = wraps xs (exec x s)"

text \<open>The sum of the reported values, as natural numbers.\<close>

definition total_reported :: "monitor \<Rightarrow> nat" where
  "total_reported s = sum_list (map unat (reported (hal_calls s)))"

section \<open>Interleaving at the level of statements\<close>

text \<open>
  Modelled from the spec: the scheduler and the mutex behind \<open>rtos_api.h\<close> are not among
  the sources. As the spec's concurrency model has it, a notification runs in its own
  context, concurrently with the reporter task; notifications do not overlap each other;
  and the mutex is held by at most one context, so that \<open>rtos_mutex_lock\<close> proceeds only
  while the mutex is free. A configuration holds the variables, the place that each
  context has reached in its function, and the holder of the mutex. A step is one
  statement of \<open>gpio_change_callback\<close> or of \<open>monitor_task\<close>; a schedule is any sequence
  of steps, and a step that cannot proceed makes the schedule impossible (\<open>None\<close>).
\<close>

datatype isr_pc = Isr_idle | Isr_lock gpio_mask_t | Isr_loop gpio_mask_t nat

datatype task_pc =
    Task_delay | Task_lock | Task_read | Task_reset uint32_t | Task_unlock uint32_t
  | Task_report uint32_t

datatype owner = Isr | Task

record config =
  mon :: monitor
  isr :: isr_pc
  task :: task_pc
  mutex :: "owner option"

datatype action = Notify gpio_mask_t | Isr_go | Task_go

definition notify :: "gpio_mask_t \<Rightarrow> config \<Rightarrow> config option" where
  "notify new_state c =
     (case isr c of
        Isr_idle \<Rightarrow>
          (let rising_edges =
                 (NOT (previous_state (mon c)) AND new_state) AND monitored_mask (mon c)
           in Some (c\<lparr>mon := (mon c)\<lparr>previous_state := new_state\<rparr>,
                      isr := (if rising_edges \<noteq> 0 then Isr_lock rising_edges else Isr_idle)\<rparr>))
      | _ \<Rightarrow> None)"

definition isr_go :: "config \<Rightarrow> config option" where
  "isr_go c =
     (case isr c of
        Isr_idle \<Rightarrow> None
      | Isr_lock r \<Rightarrow>
          (if mutex c = None
           then Some (c\<lparr>mon := call Rtos_mutex_lock (mon c), mutex := Some Isr,
                        isr := Isr_loop r 0\<rparr>)
           else None)
      | Isr_loop r i \<Rightarrow>
          (if i < 32
           then Some (c\<lparr>mon := (if r AND push_bit i 1 \<noteq> 0
                                  then (mon c)\<lparr>event_count := event_count (mon c) + 1\<rparr>
                                  else mon c),
                        isr := Isr_loop r (i + 1)\<rparr>)
           else Some (c\<lparr>mon := call Rtos_mutex_unlock (mon c), mutex := None,
                        isr := Isr_idle\<rparr>)))"

definition task_go :: "config \<Rightarrow> config option" where
  "task_go c =
     (case task c of
        Task_delay \<Rightarrow>
          Some (c\<lparr>mon := call (Rtos_task_delay_ms 1000) (mon c), task := Task_lock\<rparr>)
      | Task_lock \<Rightarrow>
          (if mutex c = None
           then Some (c\<lparr>mon := call Rtos_mutex_lock (mon c), mutex := Some Task,
                        task := Task_read\<rparr>)
           else None)
      | Task_read \<Rightarrow> Some (c\<lparr>task := Task_reset (event_count (mon c))\<rparr>)
      | Task_reset count \<Rightarrow>
          Some (c\<lparr>mon := (mon c)\<lparr>event_count := 0\<rparr>, task := Task_unlock count\<rparr>)
      | Task_unlock count \<Rightarrow>
          Some (c\<lparr>mon := call Rtos_mutex_unlock (mon c), mutex := None,
                   task := Task_report count\<rparr>)
      | Task_report count \<Rightarrow>
          Some (c\<lparr>mon := call (Report_event_count count) (mon c), task := Task_delay\<rparr>))"

fun small :: "action \<Rightarrow> config \<Rightarrow> config option" where
  "small (Notify new_state) c = notify new_state c"
| "small Isr_go c = isr_go c"
| "small Task_go c = task_go c"

fun small_run :: "action list \<Rightarrow> config \<Rightarrow> config option" where
  "small_run [] c = Some c"
| "small_run (a # as) c = (case small a c of None \<Rightarrow> None | Some c' \<Rightarrow> small_run as c')"

text \<open>
  The bookkeeping of the invariant: which places hold the mutex, that the value the task
  has read is still the value of the counter when it resets it, the increments a started
  batch has yet to make, and the value the task has read and not yet reported.
\<close>

fun isr_holds :: "isr_pc \<Rightarrow> bool" where
  "isr_holds (Isr_loop r i) = True"
| "isr_holds _ = False"

fun task_holds :: "task_pc \<Rightarrow> bool" where
  "task_holds Task_read = True"
| "task_holds (Task_reset v) = True"
| "task_holds (Task_unlock v) = True"
| "task_holds _ = False"

fun read_is_current :: "task_pc \<Rightarrow> uint32_t \<Rightarrow> bool" where
  "read_is_current (Task_reset v) ec = (ec = v)"
| "read_is_current _ ec = True"

definition exclusive :: "config \<Rightarrow> bool" where
  "exclusive c \<longleftrightarrow>
     mutex c = (if isr_holds (isr c) then Some Isr
                else if task_holds (task c) then Some Task else None)
     \<and> \<not> (isr_holds (isr c) \<and> task_holds (task c))
     \<and> read_is_current (task c) (event_count (mon c))"

fun pending :: "isr_pc \<Rightarrow> uint32_t" where
  "pending Isr_idle = 0"
| "pending (Isr_lock r) = of_nat (popcount r)"
| "pending (Isr_loop r i) = of_nat (length (filter (bit r) [i..<32]))"

fun in_hand :: "task_pc \<Rightarrow> uint32_t" where
  "in_hand (Task_unlock v) = v"
| "in_hand (Task_report v) = v"
| "in_hand _ = 0"

definition account :: "config \<Rightarrow> uint32_t" where
  "account c = sum_list (reported (hal_calls (mon c))) + in_hand (task c)
                 + event_count (mon c) + pending (isr c)"

fun produced :: "action \<Rightarrow> config \<Rightarrow> nat" where
  "produced (Notify n) c = popcount (rising (previous_state (mon c)) n (monitored_mask (mon c)))"
| "produced _ c = 0"

fun small_increments :: "action list \<Rightarrow> config \<Rightarrow> nat list" where
  "small_increments [] c = []"
| "small_increments (a # as) c =
     (case small a c of None \<Rightarrow> []
      | Some c' \<Rightarrow> produced a c # small_increments as c')"

text \<open>Both contexts at rest: no notification in progress, the task about to sleep.\<close>

definition quiescent :: "monitor \<Rightarrow> config" where
  "quiescent s = \<lparr>mon = s, isr = Isr_idle, task = Task_delay, mutex = None\<rparr>"

section \<open>Basic facts\<close>

lemma popcount_card: "popcount w = card {n. bit w n}"
proof -
  have "{n. bit w n} = set (filter (bit w) [0..<LENGTH('a)])"
    by (auto dest: bit_imp_le_length)
  moreover have "distinct (filter (bit w) [0..<LENGTH('a)])"
    by simp
  ultimately show ?thesis
    by (simp only: popcount_def distinct_card)
qed

lemma popcount_le: "popcount (w :: 'a::len word) \<le> LENGTH('a)"
proof -
  have "length (filter (bit w) [0..<LENGTH('a)]) \<le> length [0..<LENGTH('a)]"
    by (rule length_filter_le)
  then show ?thesis
    by (simp add: popcount_def)
qed

lemma popcount_zero [simp]: "popcount (0 :: 'a::len word) = 0"
  by (simp add: popcount_def)

lemma popcount_eq_0_iff: "popcount w = 0 \<longleftrightarrow> w = 0"
proof
  assume "popcount w = 0"
  then have "card {n. bit w n} = 0"
    by (simp add: popcount_card)
  moreover have "finite {n. bit w n}"
    by simp
  ultimately have "{n. bit w n} = {}"
    by simp
  then show "w = 0"
    by (auto intro: bit_eqI)
qed simp

lemma bit_test: "i < 32 \<Longrightarrow> ((r :: gpio_mask_t) AND push_bit i 1 \<noteq> 0) = bit r i"
  by (simp add: and_exp_eq_0_iff_not_bit push_bit_eq_mult)

lemma count_loop_from:
  "i \<le> 32 \<Longrightarrow> count_loop i r ec = ec + of_nat (length (filter (bit r) [i..<32]))"
proof (induction i r ec rule: count_loop.induct)
  case (1 i r ec)
  show ?case
  proof (cases "i < 32")
    case True
    then have up: "[i..<32] = i # [i + 1..<32]"
      by (simp add: upt_conv_Cons)
    have "count_loop i r ec =
            count_loop (i + 1) r (if r AND push_bit i 1 \<noteq> 0 then ec + 1 else ec)"
      using True by (subst count_loop.simps) (simp only: if_True)
    also have "\<dots> = (if r AND push_bit i 1 \<noteq> 0 then ec + 1 else ec)
                    + of_nat (length (filter (bit r) [i + 1..<32]))"
      using True by (intro "1.IH") simp_all
    also have "\<dots> = ec + of_nat (length (filter (bit r) [i..<32]))"
      unfolding up bit_test [OF True] by simp
    finally show ?thesis .
  next
    case False
    with 1 have "i = 32"
      by simp
    then show ?thesis
      by (subst count_loop.simps) simp
  qed
qed

lemma count_loop_popcount: "count_loop 0 r ec = ec + of_nat (popcount r)"
  by (simp add: count_loop_from popcount_def)

section \<open>The bit-counting loop against the population count\<close>

text \<open>
  C8. For every 32-bit value of \<open>rising_edges\<close> and every counter value, the loop over the
  32 bit positions leaves the counter exactly where a single addition of the population
  count of \<open>rising_edges\<close> leaves it: at the old value plus that population count, in
  \<open>uint32_t\<close> arithmetic.
\<close>

theorem count_loop_refines_add_popcount:
  "count_loop 0 rising_edges ec = add_popcount rising_edges ec
   \<and> count_loop 0 rising_edges ec = ec + of_nat (card {n. bit rising_edges n})"
  by (simp add: count_loop_popcount add_popcount_def popcount_card)

lemma hal_calls_call [simp]: "hal_calls (call c s) = hal_calls s @ [c]"
  and event_count_call [simp]: "event_count (call c s) = event_count s"
  and monitored_mask_call [simp]: "monitored_mask (call c s) = monitored_mask s"
  and previous_state_call [simp]: "previous_state (call c s) = previous_state s"
  by (simp_all add: call_def)

lemma callback_eq:
  "gpio_change_callback new_state s =
     (if rising (previous_state s) new_state (monitored_mask s) = 0
      then s\<lparr>previous_state := new_state\<rparr>
      else s\<lparr>event_count := event_count s
                 + of_nat (popcount (rising (previous_state s) new_state (monitored_mask s))),
              previous_state := new_state,
              hal_calls := hal_calls s @ [Rtos_mutex_lock, Rtos_mutex_unlock]\<rparr>)"
  by (simp add: gpio_change_callback_def rising_def Let_def call_def count_loop_popcount)

lemma event_count_callback:
  "event_count (gpio_change_callback new_state s) =
     event_count s + of_nat (popcount (rising (previous_state s) new_state (monitored_mask s)))"
  by (simp add: callback_eq)

lemma previous_state_callback: "previous_state (gpio_change_callback new_state s) = new_state"
  by (simp add: callback_eq)

lemma monitored_mask_callback:
  "monitored_mask (gpio_change_callback new_state s) = monitored_mask s"
  by (simp add: callback_eq)

lemma hal_calls_callback:
  "hal_calls (gpio_change_callback new_state s) =
     (if rising (previous_state s) new_state (monitored_mask s) = 0 then hal_calls s
      else hal_calls s @ [Rtos_mutex_lock, Rtos_mutex_unlock])"
  by (simp add: callback_eq)

lemma body_eq:
  "monitor_task_body s =
     s\<lparr>event_count := 0,
       hal_calls := hal_calls s @ [Rtos_task_delay_ms 1000, Rtos_mutex_lock,
                                   Rtos_mutex_unlock, Report_event_count (event_count s)]\<rparr>"
  by (simp add: monitor_task_body_def Let_def call_def)

lemma trigger_eq:
  "trigger_event_report_for_test s =
     s\<lparr>event_count := 0,
       hal_calls := hal_calls s @ [Rtos_mutex_lock, Rtos_mutex_unlock,
                                   Report_event_count (event_count s)]\<rparr>"
  by (simp add: trigger_event_report_for_test_def Let_def call_def)

lemma init_eq:
  "event_monitor_init m input s =
     s\<lparr>monitored_mask := m, previous_state := input,
       hal_calls := hal_calls s @ [Gpio_read_input,
                                   Gpio_register_callback Gpio_change_callback,
                                   Rtos_task_create Monitor_task]\<rparr>"
  by (simp add: event_monitor_init_def Let_def call_def)

lemma bit_rising:
  "bit (rising prev new m) i \<longleftrightarrow> \<not> bit prev i \<and> bit new i \<and> bit m i"
  by (auto simp add: rising_def bit_and_iff bit_not_iff dest: bit_imp_le_length)

lemma popcount_rising:
  "popcount (rising prev new m) = card {i. \<not> bit prev i \<and> bit new i \<and> bit m i}"
  by (simp add: popcount_card bit_rising)

lemma unat_add_of_nat: "unat ((a :: uint32_t) + of_nat k) = (unat a + k) mod 2 ^ 32"
  by (simp add: unat_word_ariths unat_of_nat mod_add_right_eq)

lemma run_append: "run (xs @ ys) s = run ys (run xs s)"
  by (induction xs arbitrary: s) simp_all

section \<open>Edge detection\<close>

text \<open>
  C1. For every stored previous sample, every new sample and every monitor mask, one call of
  \<open>gpio_change_callback\<close> adds to the event counter exactly the population count of
  \<open>(~prev & new) & mask\<close> (the addition is that of \<open>uint32_t\<close>; the second conjunct spells
  it out on the unsigned values). That population count is the number of bit positions
  that were 0, are now 1 and are monitored: a bit that stays 1, a bit that falls and a bit
  outside the mask are not counted.
\<close>

theorem callback_counts_rising_edges:
  "event_count (gpio_change_callback new s)
     = event_count s + of_nat (popcount ((NOT (previous_state s) AND new) AND monitored_mask s))
   \<and> unat (event_count (gpio_change_callback new s))
     = (unat (event_count s)
          + popcount ((NOT (previous_state s) AND new) AND monitored_mask s)) mod 2 ^ 32
   \<and> popcount ((NOT (previous_state s) AND new) AND monitored_mask s)
     = card {i. \<not> bit (previous_state s) i \<and> bit new i \<and> bit (monitored_mask s) i}"
proof -
  let ?r = "(NOT (previous_state s) AND new) AND monitored_mask s"
  have r: "rising (previous_state s) new (monitored_mask s) = ?r"
    by (simp add: rising_def)
  have a: "event_count (gpio_change_callback new s) = event_count s + of_nat (popcount ?r)"
    by (simp only: event_count_callback r)
  have b: "unat (event_count (gpio_change_callback new s))
             = (unat (event_count s) + popcount ?r) mod 2 ^ 32"
    by (simp only: a unat_add_of_nat)
  have c: "popcount ?r
             = card {i. \<not> bit (previous_state s) i \<and> bit new i \<and> bit (monitored_mask s) i}"
    using popcount_rising [of "previous_state s" new "monitored_mask s"] by (simp only: r)
  from a b c show ?thesis
    by (intro conjI)
qed

text \<open>
  C3. After every call of \<open>gpio_change_callback\<close> the stored previous sample is the new
  sample, whatever the rising-edge word is: in particular after a spurious notification
  that repeats the stored sample, and after the last notification of any run.
\<close>

theorem callback_stores_new_sample:
  "previous_state (gpio_change_callback new s) = new
   \<and> previous_state (gpio_change_callback (previous_state s) s) = previous_state s
   \<and> previous_state (run (xs @ [Notification new]) s) = new"
  by (simp add: previous_state_callback run_append)

section \<open>Effects of initialisation\<close>

text \<open>
  C4. For every mask argument, \<open>event_monitor_init\<close> stores the mask, stores the value read
  from the input source as the previous sample, and calls, in this order, the input read,
  the registration of \<open>gpio_change_callback\<close> as the change handler and the creation of the
  task running \<open>monitor_task\<close>. The first notification afterwards is measured against the
  sample read at initialisation: no bit that was high in it is among the rising edges, and
  a first notification that repeats it changes nothing.
\<close>

theorem init_effects:
  "monitored_mask (event_monitor_init m input s) = m
   \<and> previous_state (event_monitor_init m input s) = input
   \<and> hal_calls (event_monitor_init m input s)
       = hal_calls s @ [Gpio_read_input, Gpio_register_callback Gpio_change_callback,
                        Rtos_task_create Monitor_task]
   \<and> event_count (gpio_change_callback new (event_monitor_init m input s))
       = event_count s + of_nat (popcount ((NOT input AND new) AND m))
   \<and> ((NOT input AND new) AND m) AND input = 0
   \<and> gpio_change_callback input (event_monitor_init m input s) = event_monitor_init m input s"
proof -
  have z: "((NOT input AND new) AND m) AND input = 0"
    by (rule bit_eqI) (simp add: bit_and_iff bit_not_iff)
  have same: "rising input input m = 0"
    by (rule bit_eqI) (simp add: bit_rising)
  show ?thesis
    using z same by (simp add: init_eq callback_eq rising_def)
qed

lemma reported_append: "reported (xs @ ys) = reported xs @ reported ys"
  by (induction xs rule: reported.induct) simp_all

section \<open>Draining\<close>

text \<open>
  C6. A drain leaves the event counter at zero, so a second drain that follows with no
  notification in between reports zero. This holds for the pass of \<open>monitor_task\<close> and for
  the drain of the test suite.
\<close>

theorem drain_idempotent:
  "event_count (monitor_task_body s) = 0
   \<and> hal_calls (monitor_task_body (monitor_task_body s))
       = hal_calls (monitor_task_body s)
           @ [Rtos_task_delay_ms 1000, Rtos_mutex_lock, Rtos_mutex_unlock, Report_event_count 0]
   \<and> event_count (trigger_event_report_for_test s) = 0
   \<and> hal_calls (trigger_event_report_for_test (trigger_event_report_for_test s))
       = hal_calls (trigger_event_report_for_test s)
           @ [Rtos_mutex_lock, Rtos_mutex_unlock, Report_event_count 0]
   \<and> reported (hal_calls (monitor_task_body (monitor_task_body s)))
       = reported (hal_calls s) @ [event_count s, 0]"
  by (simp add: body_eq trigger_eq reported_append)

section \<open>Overflow of the counter\<close>

text \<open>
  C9. The event counter is an unsigned 32-bit integer: the counting loop leaves it at the
  old value plus the population count, modulo \<open>2 ^ 32\<close>. One increment of a counter that
  holds \<open>2 ^ 32 - 1\<close> yields 0, and the callback behaves as always there: it stores the new
  sample and brackets the increment with the mutex.
\<close>

theorem counter_wraps:
  "unat (count_loop 0 rising_edges ec) = (unat ec + popcount rising_edges) mod 2 ^ 32
   \<and> (popcount rising_edges = 1 \<longrightarrow> count_loop 0 rising_edges 0xFFFFFFFF = 0)
   \<and> (event_count s = 0xFFFFFFFF
        \<and> popcount ((NOT (previous_state s) AND new) AND monitored_mask s) = 1
      \<longrightarrow> gpio_change_callback new s
            = s\<lparr>event_count := 0, previous_state := new,
                hal_calls := hal_calls s @ [Rtos_mutex_lock, Rtos_mutex_unlock]\<rparr>)"
proof (intro conjI impI)
  show "unat (count_loop 0 rising_edges ec) = (unat ec + popcount rising_edges) mod 2 ^ 32"
    by (simp only: count_loop_popcount unat_add_of_nat)
next
  assume "popcount rising_edges = 1"
  then show "count_loop 0 rising_edges 0xFFFFFFFF = 0"
    by (simp add: count_loop_popcount)
next
  let ?r = "(NOT (previous_state s) AND new) AND monitored_mask s"
  assume h: "event_count s = 0xFFFFFFFF \<and> popcount ?r = 1"
  then have "popcount (rising (previous_state s) new (monitored_mask s)) = 1"
    by (simp add: rising_def)
  moreover from this have "rising (previous_state s) new (monitored_mask s) \<noteq> 0"
    using popcount_eq_0_iff [of "rising (previous_state s) new (monitored_mask s)"] by simp
  ultimately show "gpio_change_callback new s
      = s\<lparr>event_count := 0, previous_state := new,
          hal_calls := hal_calls s @ [Rtos_mutex_lock, Rtos_mutex_unlock]\<rparr>"
    using h by (simp add: callback_eq)
qed

theorem counter_wraps_witness:
  "count_loop 0 1 0xFFFFFFFF = 0
   \<and> gpio_change_callback 1 \<lparr>event_count = 0xFFFFFFFF, monitored_mask = 1,
                              previous_state = 0, hal_calls = []\<rparr>
       = \<lparr>event_count = 0, monitored_mask = 1, previous_state = 1,
          hal_calls = [Rtos_mutex_lock, Rtos_mutex_unlock]\<rparr>"
proof -
  have p: "popcount (1 :: gpio_mask_t) = 1"
    by code_simp
  have q: "(NOT (0 :: gpio_mask_t) AND 1) AND 1 = 1"
    by simp
  show ?thesis
    using counter_wraps [of 1 0 "\<lparr>event_count = 0xFFFFFFFF, monitored_mask = 1,
                                    previous_state = 0, hal_calls = []\<rparr>" 1] p q
    by simp
qed

section \<open>Initialisation and the counter\<close>

text \<open>
  C10. \<open>event_monitor_init\<close> leaves the event counter unchanged, also when it is called
  again after any run that followed an earlier initialisation; it overwrites the mask and
  the previous sample. The events accumulated before it are reported by the next drain.
\<close>

theorem init_keeps_event_count:
  "event_count (event_monitor_init m input s) = event_count s
   \<and> event_count (event_monitor_init m2 input2 (run xs (event_monitor_init m input s)))
       = event_count (run xs (event_monitor_init m input s))
   \<and> monitored_mask (event_monitor_init m2 input2 (run xs (event_monitor_init m input s))) = m2
   \<and> previous_state (event_monitor_init m2 input2 (run xs (event_monitor_init m input s))) = input2
   \<and> reported (hal_calls (monitor_task_body (event_monitor_init m input s)))
       = reported (hal_calls s) @ [event_count s]"
  by (simp add: init_eq body_eq reported_append)

lemma reported_callback:
  "reported (hal_calls (gpio_change_callback n s)) = reported (hal_calls s)"
  by (simp add: hal_calls_callback reported_append)

lemma total_reported_callback:
  "total_reported (gpio_change_callback n s) = total_reported s"
  by (simp add: total_reported_def reported_callback)

lemma total_reported_body:
  "total_reported (monitor_task_body s) = total_reported s + unat (event_count s)"
  by (simp add: total_reported_def body_eq reported_append)

lemma total_reported_trigger:
  "total_reported (trigger_event_report_for_test s) = total_reported s + unat (event_count s)"
  by (simp add: total_reported_def trigger_eq reported_append)

lemma callback_count_nat:
  fixes s :: monitor and n :: gpio_mask_t
  defines "c \<equiv> popcount (rising (previous_state s) n (monitored_mask s))"
  shows "unat (event_count (gpio_change_callback n s))
           + 2 ^ 32 * (if 2 ^ 32 \<le> unat (event_count s) + c then 1 else 0)
         = unat (event_count s) + c"
proof -
  have c32: "c \<le> 32"
    unfolding c_def using popcount_le [of "rising (previous_state s) n (monitored_mask s)"]
    by simp
  have lt: "unat (event_count s) < 2 ^ 32"
    using unsigned_less [of "event_count s", where ?'a = nat] by simp
  have eq: "unat (event_count (gpio_change_callback n s)) = (unat (event_count s) + c) mod 2 ^ 32"
    unfolding c_def by (simp only: event_count_callback unat_add_of_nat)
  show ?thesis
  proof (cases "2 ^ 32 \<le> unat (event_count s) + c")
    case True
    with c32 lt have "(unat (event_count s) + c) mod 2 ^ 32 = unat (event_count s) + c - 2 ^ 32"
      by (simp add: mod_if le_mod_geq)
    with True eq show ?thesis
      by simp
  next
    case False
    with eq show ?thesis
      by simp
  qed
qed

lemma run_balance:
  "total_reported (run xs s) + unat (event_count (run xs s)) + 2 ^ 32 * wraps xs s
     = total_reported s + unat (event_count s) + sum_list (increments xs s)"
proof (induction xs arbitrary: s)
  case Nil
  show ?case
    by simp
next
  case (Cons x xs)
  show ?case
  proof (cases x)
    case (Notification n)
    from callback_count_nat [of n s] Cons.IH [of "gpio_change_callback n s"]
    show ?thesis
      unfolding Notification by (simp add: total_reported_callback split: if_splits)
  next
    case Period
    from Cons.IH [of "monitor_task_body s"] show ?thesis
      unfolding Period by (simp add: total_reported_body) (simp add: body_eq)
  next
    case Trigger_report
    from Cons.IH [of "trigger_event_report_for_test s"] show ?thesis
      unfolding Trigger_report by (simp add: total_reported_trigger) (simp add: trigger_eq)
  qed
qed

lemma run_balance_word:
  "sum_list (reported (hal_calls (run xs s))) + event_count (run xs s)
     = sum_list (reported (hal_calls s)) + event_count s + of_nat (sum_list (increments xs s))"
proof (induction xs arbitrary: s)
  case Nil
  show ?case
    by simp
next
  case (Cons x xs)
  show ?case
    using Cons.IH [of "exec x s"]
    by (cases x)
      (simp_all add: reported_callback event_count_callback body_eq trigger_eq reported_append)
qed

lemma run_notifications:
  "reported (hal_calls (run (map Notification ns) s)) = reported (hal_calls s)
   \<and> event_count (run (map Notification ns) s)
       = event_count s + of_nat (sum_list (increments (map Notification ns) s))"
  by (induction ns arbitrary: s) (simp_all add: reported_callback event_count_callback)

lemma monitor_task_idle:
  "event_count s = 0 \<Longrightarrow>
     hal_calls (monitor_task n s)
       = hal_calls s @ concat (replicate n [Rtos_task_delay_ms 1000, Rtos_mutex_lock,
                                            Rtos_mutex_unlock, Report_event_count 0])"
proof (induction n arbitrary: s)
  case 0
  show ?case
    by simp
next
  case (Suc n)
  have "event_count (monitor_task_body s) = 0"
    by (simp add: body_eq)
  from Suc.IH [OF this] Suc.prems show ?case
    by (simp add: body_eq)
qed

lemma callback_mask_zero:
  "monitored_mask s = 0 \<Longrightarrow> gpio_change_callback n s = s\<lparr>previous_state := n\<rparr>"
  by (simp add: callback_eq rising_def)

lemma run_mask_zero:
  "monitored_mask s = 0 \<Longrightarrow>
     run (map Notification ns) s = (if ns = [] then s else s\<lparr>previous_state := last ns\<rparr>)
     \<and> sum_list (increments (map Notification ns) s) = 0"
proof (induction ns arbitrary: s)
  case Nil
  show ?case
    by simp
next
  case (Cons n ns)
  have "monitored_mask (s\<lparr>previous_state := n\<rparr>) = 0"
    using Cons.prems by simp
  from Cons.IH [OF this] Cons.prems show ?case
    by (simp add: callback_mask_zero rising_def)
qed

section \<open>The zero mask\<close>

text \<open>
  C7. If the monitor mask is zero then, for every sequence of sample notifications of any
  length and from any stored previous sample, no notification produces an event: the
  event counter keeps its value after the sequence and after each of its prefixes, and
  the mutex is never taken.
\<close>

theorem zero_mask_no_events:
  "monitored_mask s = 0 \<Longrightarrow>
     event_count (run (map Notification ns) s) = event_count s
     \<and> sum_list (increments (map Notification ns) s) = 0
     \<and> hal_calls (run (map Notification ns) s) = hal_calls s
     \<and> (\<forall>k. event_count (run (map Notification (take k ns)) s) = event_count s)"
proof -
  assume m: "monitored_mask s = 0"
  have "event_count (run (map Notification ms) s) = event_count s
        \<and> hal_calls (run (map Notification ms) s) = hal_calls s" for ms
    using run_mask_zero [OF m, of ms] by simp
  then show ?thesis
    using run_mask_zero [OF m, of ns] by simp
qed

theorem zero_mask_no_events_witness:
  "monitored_mask (event_monitor_init 0 0 power_on) = 0
   \<and> event_count (run (map Notification [0, 0xFF]) (event_monitor_init 0 0 power_on)) = 0
   \<and> sum_list (increments (map Notification [0, 0xFF]) (event_monitor_init 0 0 power_on)) = 0"
proof -
  have m: "monitored_mask (event_monitor_init 0 0 power_on) = 0"
    by (simp add: init_eq)
  have e: "event_count (event_monitor_init 0 0 power_on) = 0"
    by (simp add: init_eq power_on_def)
  from zero_mask_no_events [OF m, of "[0, 0xFF]"] m e show ?thesis
    by simp
qed

section \<open>No increment is lost, up to overflow\<close>

text \<open>
  C2, as amended. For every sequence of whole notifications and whole drains, from any
  state: the sum of the reported values plus the residual counter value, plus \<open>2 ^ 32\<close>
  for every notification whose batch overflowed the 32-bit counter, equals the reported
  and residual values at the start plus the sum of all \<open>c_i\<close>. Hence the two sides of the
  no-loss equation agree modulo \<open>2 ^ 32\<close>, they are equal exactly when no batch overflows
  the counter, and in \<open>uint32_t\<close> arithmetic they are always equal.
\<close>

theorem no_loss_up_to_overflow:
  "total_reported (run xs s) + unat (event_count (run xs s)) + 2 ^ 32 * wraps xs s
     = total_reported s + unat (event_count s) + sum_list (increments xs s)
   \<and> (total_reported (run xs s) + unat (event_count (run xs s))) mod 2 ^ 32
     = (total_reported s + unat (event_count s) + sum_list (increments xs s)) mod 2 ^ 32
   \<and> (wraps xs s = 0) =
       (total_reported (run xs s) + unat (event_count (run xs s))
          = total_reported s + unat (event_count s) + sum_list (increments xs s))
   \<and> sum_list (reported (hal_calls (run xs s))) + event_count (run xs s)
     = sum_list (reported (hal_calls s)) + event_count s
         + of_nat (sum_list (increments xs s))"
proof -
  let ?l = "total_reported (run xs s) + unat (event_count (run xs s))"
  let ?r = "total_reported s + unat (event_count s) + sum_list (increments xs s)"
  have b: "?l + 2 ^ 32 * wraps xs s = ?r"
    by (rule run_balance)
  have "(?l + 2 ^ 32 * wraps xs s) mod 2 ^ 32 = ?l mod 2 ^ 32"
    by simp
  with b have m: "?l mod 2 ^ 32 = ?r mod 2 ^ 32"
    by simp
  from b have z: "(wraps xs s = 0) = (?l = ?r)"
    by auto
  from b m z run_balance_word [of xs s] show ?thesis
    by (intro conjI)
qed

lemmas run_eval = init_eq power_on_def callback_eq rising_def popcount_def upt_rec
  body_eq trigger_eq

theorem no_loss_up_to_overflow_witness:
  "wraps [Notification 0, Notification 3, Period, Notification 7, Notification 5,
          Notification 0xF, Trigger_report, Notification 0, Notification 1]
         (event_monitor_init 0x0F 0 power_on) = 0
   \<and> total_reported (run [Notification 0, Notification 3, Period, Notification 7,
                           Notification 5, Notification 0xF, Trigger_report, Notification 0,
                           Notification 1] (event_monitor_init 0x0F 0 power_on))
       + unat (event_count (run [Notification 0, Notification 3, Period, Notification 7,
                                 Notification 5, Notification 0xF, Trigger_report,
                                 Notification 0, Notification 1]
                                (event_monitor_init 0x0F 0 power_on)))
     = sum_list (increments [Notification 0, Notification 3, Period, Notification 7,
                             Notification 5, Notification 0xF, Trigger_report, Notification 0,
                             Notification 1] (event_monitor_init 0x0F 0 power_on))
   \<and> sum_list (increments [Notification 0, Notification 3, Period, Notification 7,
                           Notification 5, Notification 0xF, Trigger_report, Notification 0,
                           Notification 1] (event_monitor_init 0x0F 0 power_on)) = 6"
proof -
  let ?xs = "[Notification 0, Notification 3, Period, Notification 7, Notification 5,
              Notification 0xF, Trigger_report, Notification 0, Notification 1]"
  let ?s = "event_monitor_init 0x0F 0 power_on"
  have w: "wraps ?xs ?s = 0"
    by (simp add: run_eval total_reported_def)
  have i: "sum_list (increments ?xs ?s) = 6"
    by (simp add: run_eval total_reported_def)
  have t: "total_reported ?s = 0"
    by (simp add: total_reported_def init_eq power_on_def)
  have e: "unat (event_count ?s) = 0"
    by (simp add: init_eq power_on_def)
  from no_loss_up_to_overflow [of ?xs ?s] w
  have "total_reported (run ?xs ?s) + unat (event_count (run ?xs ?s))
          = total_reported ?s + unat (event_count ?s) + sum_list (increments ?xs ?s)"
    by (simp only: simp_thms)
  with w i t e show ?thesis
    by (simp only: add_0 simp_thms)
qed

lemma all_ones: "(0xFFFFFFFF :: gpio_mask_t) = - 1"
  by simp

lemma popcount_all_ones: "popcount (- 1 :: gpio_mask_t) = 32"
  by (simp add: popcount_def)

lemma rise_fall:
  assumes "previous_state s = 0" and "monitored_mask s = - 1"
  shows "run [Notification (- 1), Notification 0] s
           = s\<lparr>event_count := event_count s + 32,
               hal_calls := hal_calls s @ [Rtos_mutex_lock, Rtos_mutex_unlock]\<rparr>"
    and "increments [Notification (- 1), Notification 0] s = [32, 0]"
  using assms by (simp_all add: callback_eq rising_def popcount_all_ones)

lemma rise_fall_repeated:
  assumes "previous_state s = 0" and "monitored_mask s = - 1"
  shows "event_count (run (concat (replicate n [Notification (- 1), Notification 0])) s)
           = event_count s + of_nat (32 * n)
         \<and> total_reported (run (concat (replicate n [Notification (- 1), Notification 0])) s)
           = total_reported s
         \<and> sum_list (increments (concat (replicate n [Notification (- 1), Notification 0])) s)
           = 32 * n"
  using assms
proof (induction n arbitrary: s)
  case 0
  show ?case
    by simp
next
  case (Suc n)
  let ?t = "s\<lparr>event_count := event_count s + 32,
               hal_calls := hal_calls s @ [Rtos_mutex_lock, Rtos_mutex_unlock]\<rparr>"
  have t: "run [Notification (- 1), Notification 0] s = ?t"
    and i: "increments [Notification (- 1), Notification 0] s = [32, 0]"
    using rise_fall [OF Suc.prems] by simp_all
  have "previous_state ?t = 0" and "monitored_mask ?t = - 1"
    using Suc.prems by simp_all
  note ih = Suc.IH [OF this]
  have split: "concat (replicate (Suc n) [Notification (- 1), Notification 0])
                 = [Notification (- 1), Notification 0]
                     @ concat (replicate n [Notification (- 1), Notification 0])"
    by simp
  have inc: "increments (xs @ ys) u = increments xs u @ increments ys (run xs u)" for xs ys u
    by (induction xs u rule: increments.induct) simp_all
  have tr: "total_reported ?t = total_reported s"
    by (simp add: total_reported_def reported_append)
  show ?case
    unfolding split run_append inc t i using ih tr by simp
qed

text \<open>
  The no-loss equation over the natural numbers fails when the counter overflows. With
  every bit monitored and all inputs low at initialisation, \<open>2 ^ 27\<close> rounds of all 32
  inputs rising and falling again, with no drain in between, produce \<open>2 ^ 32\<close> events;
  nothing has been reported, and the counter holds 0.
\<close>

theorem no_loss_counterexample:
  "total_reported
     (run (concat (replicate (2 ^ 27) [Notification 0xFFFFFFFF, Notification 0]))
          (event_monitor_init 0xFFFFFFFF 0 power_on)) = 0
   \<and> unat (event_count
        (run (concat (replicate (2 ^ 27) [Notification 0xFFFFFFFF, Notification 0]))
             (event_monitor_init 0xFFFFFFFF 0 power_on))) = 0
   \<and> sum_list
        (increments (concat (replicate (2 ^ 27) [Notification 0xFFFFFFFF, Notification 0]))
                    (event_monitor_init 0xFFFFFFFF 0 power_on)) = 2 ^ 32
   \<and> total_reported
        (run (concat (replicate (2 ^ 27) [Notification 0xFFFFFFFF, Notification 0]))
             (event_monitor_init 0xFFFFFFFF 0 power_on))
       + unat (event_count
           (run (concat (replicate (2 ^ 27) [Notification 0xFFFFFFFF, Notification 0]))
                (event_monitor_init 0xFFFFFFFF 0 power_on)))
     \<noteq> sum_list
         (increments (concat (replicate (2 ^ 27) [Notification 0xFFFFFFFF, Notification 0]))
                     (event_monitor_init 0xFFFFFFFF 0 power_on))"
proof -
  let ?s = "event_monitor_init (- 1) 0 power_on"
  let ?xs = "concat (replicate (2 ^ 27) [Notification (- 1), Notification 0])"
  have p: "previous_state ?s = 0" and m: "monitored_mask ?s = - 1"
    by (simp_all add: init_eq)
  have e: "event_count ?s = 0" and t: "total_reported ?s = 0"
    by (simp_all add: init_eq power_on_def total_reported_def)
  have n: "32 * (2 :: nat) ^ 27 = 2 ^ 32"
    by simp
  have z: "unat (of_nat (2 ^ 32) :: uint32_t) = 0"
    by simp
  from rise_fall_repeated [OF p m, of "2 ^ 27"]
  have "event_count (run ?xs ?s) = of_nat (2 ^ 32)"
    and a: "total_reported (run ?xs ?s) = 0"
    and c: "sum_list (increments ?xs ?s) = 2 ^ 32"
    unfolding e t n by (simp_all only: add_0)
  then have b: "unat (event_count (run ?xs ?s)) = 0"
    using z by (simp only:)
  have d: "total_reported (run ?xs ?s) + unat (event_count (run ?xs ?s))
             \<noteq> sum_list (increments ?xs ?s)"
    unfolding a b c by simp
  from a b c d show ?thesis
    unfolding all_ones by (intro conjI)
qed

section \<open>Statement-level interleavings\<close>

text \<open>
  Under every schedule of single statements the mutex excludes the two contexts from
  their critical sections, the counter does not change between the task's read and its
  reset, and no increment is lost or counted twice (in \<open>uint32_t\<close> arithmetic). A whole
  notification and a whole drain are particular schedules, and they yield what
  \<open>gpio_change_callback\<close> and \<open>monitor_task_body\<close> compute.
\<close>

lemma exclusive_quiescent: "exclusive (quiescent s)"
  by (simp add: exclusive_def quiescent_def)

lemma small_exclusive:
  assumes "small a c = Some c'" and "exclusive c"
  shows "exclusive c'"
proof (cases a)
  case (Notify n)
  with assms show ?thesis
    by (auto simp add: notify_def exclusive_def Let_def split: isr_pc.splits if_splits)
next
  case Isr_go
  with assms show ?thesis
    by (cases "isr c"; cases "task c")
      (auto simp add: isr_go_def exclusive_def split: if_splits)
next
  case Task_go
  with assms show ?thesis
    by (cases "isr c"; cases "task c")
      (auto simp add: task_go_def exclusive_def split: if_splits)
qed

lemma small_account:
  assumes "small a c = Some c'" and "exclusive c"
  shows "account c' = account c + of_nat (produced a c)"
proof (cases a)
  case (Notify n)
  with assms show ?thesis
    by (cases "isr c")
      (auto simp add: notify_def account_def Let_def rising_def split: if_splits)
next
  case Isr_go
  show ?thesis
  proof (cases "isr c")
    case Isr_idle
    with assms Isr_go show ?thesis
      by (simp add: isr_go_def)
  next
    case (Isr_lock r)
    with assms Isr_go show ?thesis
      by (auto simp add: isr_go_def account_def popcount_def reported_append split: if_splits)
  next
    case (Isr_loop r i)
    show ?thesis
    proof (cases "i < 32")
      case True
      then have up: "[i..<32] = i # [i + 1..<32]"
        by (simp add: upt_conv_Cons)
      have b: "(r AND 2 ^ i = 0) = (\<not> bit r i)"
        by (rule and_exp_eq_0_iff_not_bit)
      from assms Isr_go Isr_loop True show ?thesis
        unfolding account_def by (auto simp add: isr_go_def up b simp del: upt_Suc)
    next
      case False
      with assms Isr_go Isr_loop show ?thesis
        by (auto simp add: isr_go_def account_def reported_append)
    qed
  qed
next
  case Task_go
  with assms show ?thesis
    by (cases "task c")
      (auto simp add: task_go_def account_def exclusive_def reported_append split: if_splits)
qed

lemma small_run_account:
  "small_run as c = Some c' \<Longrightarrow> exclusive c \<Longrightarrow>
     exclusive c' \<and> account c' = account c + of_nat (sum_list (small_increments as c))"
proof (induction as arbitrary: c)
  case Nil
  then show ?case
    by simp
next
  case (Cons a as)
  from Cons.prems(1) obtain d where d: "small a c = Some d" and r: "small_run as d = Some c'"
    by (auto split: option.splits)
  from small_exclusive [OF d Cons.prems(2)] have e: "exclusive d" .
  from Cons.IH [OF r e] small_account [OF d Cons.prems(2)] d show ?case
    by simp
qed

lemma small_run_append:
  "small_run (as @ bs) c = (case small_run as c of None \<Rightarrow> None | Some d \<Rightarrow> small_run bs d)"
  by (induction as arbitrary: c) (simp_all split: option.splits)

lemma loop_steps:
  "isr c = Isr_loop r i \<Longrightarrow> i \<le> 32 \<Longrightarrow>
     small_run (replicate (32 - i) Isr_go) c
       = Some (c\<lparr>mon := (mon c)\<lparr>event_count := count_loop i r (event_count (mon c))\<rparr>,
                 isr := Isr_loop r 32\<rparr>)"
proof (induction "32 - i" arbitrary: i c)
  case 0
  then have "i = 32"
    by simp
  with "0.prems" show ?case
    by (simp add: count_loop.simps [of 32])
next
  case (Suc k)
  then have lt: "i < 32"
    by simp
  let ?d = "c\<lparr>mon := (if r AND push_bit i 1 \<noteq> 0
                         then (mon c)\<lparr>event_count := event_count (mon c) + 1\<rparr>
                         else mon c),
               isr := Isr_loop r (i + 1)\<rparr>"
  have go: "isr_go c = Some ?d"
    using Suc.prems(1) lt by (simp add: isr_go_def)
  have k: "k = 32 - (i + 1)"
    using Suc.hyps(2) by simp
  have "isr ?d = Isr_loop r (i + 1)" and "i + 1 \<le> 32"
    using lt by simp_all
  note ih = Suc.hyps(1) [OF k this]
  have unfold: "count_loop i r (event_count (mon c))
                  = count_loop (i + 1) r (event_count (mon ?d))"
    using lt by (subst count_loop.simps) simp
  have "small_run (replicate (32 - i) Isr_go) c = small_run (replicate k Isr_go) ?d"
    using Suc.hyps(2) [symmetric] go by simp
  also have "\<dots> = Some (?d\<lparr>mon := (mon ?d)\<lparr>event_count :=
                                   count_loop (i + 1) r (event_count (mon ?d))\<rparr>,
                              isr := Isr_loop r 32\<rparr>)"
    using ih k by simp
  also have "\<dots> = Some (c\<lparr>mon := (mon c)\<lparr>event_count :=
                                   count_loop i r (event_count (mon c))\<rparr>,
                              isr := Isr_loop r 32\<rparr>)"
    unfolding unfold by simp
  finally show ?case .
qed

lemma whole_drain:
  "small_run [Task_go, Task_go, Task_go, Task_go, Task_go, Task_go] (quiescent s)
     = Some (quiescent (monitor_task_body s))"
  by (simp add: quiescent_def task_go_def monitor_task_body_def Let_def)

lemma whole_notification:
  "small_run (Notify n # (if rising (previous_state s) n (monitored_mask s) = 0 then []
                          else Isr_go # replicate 32 Isr_go @ [Isr_go])) (quiescent s)
     = Some (quiescent (gpio_change_callback n s))"
proof (cases "rising (previous_state s) n (monitored_mask s) = 0")
  case True
  then show ?thesis
    by (simp add: notify_def quiescent_def gpio_change_callback_def rising_def Let_def)
next
  case False
  let ?r = "rising (previous_state s) n (monitored_mask s)"
  let ?c = "\<lparr>mon = call Rtos_mutex_lock (s\<lparr>previous_state := n\<rparr>), isr = Isr_loop ?r 0,
             task = Task_delay, mutex = Some Isr\<rparr>"
  have a: "small_run [Notify n, Isr_go] (quiescent s) = Some ?c"
    using False by (simp add: notify_def isr_go_def quiescent_def rising_def Let_def)
  let ?d = "?c\<lparr>mon := (mon ?c)\<lparr>event_count := count_loop 0 ?r (event_count (mon ?c))\<rparr>,
               isr := Isr_loop ?r 32\<rparr>"
  have b: "small_run (replicate 32 Isr_go) ?c = Some ?d"
    using loop_steps [of ?c ?r 0] by simp
  have c: "small_run [Isr_go] ?d = Some (quiescent (gpio_change_callback n s))"
    using False
    by (simp add: isr_go_def quiescent_def gpio_change_callback_def rising_def Let_def call_def)
  have "small_run (Notify n # Isr_go # replicate 32 Isr_go @ [Isr_go]) (quiescent s)
          = small_run ([Notify n, Isr_go] @ replicate 32 Isr_go @ [Isr_go]) (quiescent s)"
    by simp
  also have "\<dots> = small_run (replicate 32 Isr_go @ [Isr_go]) ?c"
    by (subst small_run_append) (simp only: a option.case)
  also have "\<dots> = small_run [Isr_go] ?d"
    by (subst small_run_append) (simp only: b option.case)
  also note c
  finally show ?thesis
    using False by simp
qed

lemma interleaved_no_loss:
  assumes "small_run as (quiescent s) = Some c"
  shows "\<not> (isr_holds (isr c) \<and> task_holds (task c))"
    and "read_is_current (task c) (event_count (mon c))"
    and "sum_list (reported (hal_calls (mon c))) + in_hand (task c) + event_count (mon c)
           + pending (isr c)
         = sum_list (reported (hal_calls s)) + event_count s
             + of_nat (sum_list (small_increments as (quiescent s)))"
proof -
  from small_run_account [OF assms exclusive_quiescent]
  have e: "exclusive c"
    and a: "account c = account (quiescent s)
                          + of_nat (sum_list (small_increments as (quiescent s)))"
    by simp_all
  from e show "\<not> (isr_holds (isr c) \<and> task_holds (task c))"
    and "read_is_current (task c) (event_count (mon c))"
    by (simp_all add: exclusive_def)
  from a show "sum_list (reported (hal_calls (mon c))) + in_hand (task c) + event_count (mon c)
           + pending (isr c)
         = sum_list (reported (hal_calls s)) + event_count s
             + of_nat (sum_list (small_increments as (quiescent s)))"
    by (simp add: account_def quiescent_def)
qed

lemma notifications_count_nat:
  assumes "event_count t = 0"
  shows "unat (event_count (run (map Notification ns) t))
           + 2 ^ 32 * wraps (map Notification ns) t
         = sum_list (increments (map Notification ns) t)"
proof -
  have "total_reported (run (map Notification ns) t) = total_reported t"
    by (simp add: total_reported_def run_notifications)
  with run_balance [of "map Notification ns" t] assms show ?thesis
    by simp
qed

lemma reported_rise_fall_repeated:
  assumes "previous_state s = 0" and "monitored_mask s = - 1"
  shows "reported (hal_calls (run (concat (replicate n [Notification (- 1), Notification 0])) s))
           = reported (hal_calls s)"
  using assms
proof (induction n arbitrary: s)
  case 0
  show ?case
    by simp
next
  case (Suc n)
  let ?t = "s\<lparr>event_count := event_count s + 32,
               hal_calls := hal_calls s @ [Rtos_mutex_lock, Rtos_mutex_unlock]\<rparr>"
  have t: "run [Notification (- 1), Notification 0] s = ?t"
    using rise_fall(1) [OF Suc.prems] .
  have "previous_state ?t = 0" and "monitored_mask ?t = - 1"
    using Suc.prems by simp_all
  note ih = Suc.IH [OF this]
  have split: "concat (replicate (Suc n) [Notification (- 1), Notification 0])
                 = [Notification (- 1), Notification 0]
                     @ concat (replicate n [Notification (- 1), Notification 0])"
    by simp
  show ?case
    unfolding split run_append t using ih by (simp add: reported_append)
qed

section \<open>The periodic report\<close>

text \<open>
  C5, as amended. One period of \<open>monitor_task\<close> calls the delay with 1000, then takes the
  mutex, reads the event counter, sets it to zero and releases the mutex, and then calls
  \<open>report_event_count\<close> once, with exactly the value read; over any number of periods there
  is one report per period. The value read is the number of events of the notifications
  since the previous drain, or since initialisation for the first drain, modulo \<open>2 ^ 32\<close>:
  it falls short of that number by \<open>2 ^ 32\<close> for every batch that overflowed the counter
  since then. The read and the reset are atomic with respect to the callback: the six
  statements of a period are the six task steps of the statement-level model, and under
  every schedule of single statements the callback is not in its increment loop while the
  task is between lock and unlock, the task holds the mutex there, the counter still has
  the value read when it is reset, and every event is accounted for.
\<close>

theorem monitor_task_period:
  "monitor_task_body s
     = s\<lparr>event_count := 0,
         hal_calls := hal_calls s @ [Rtos_task_delay_ms 1000, Rtos_mutex_lock,
                                     Rtos_mutex_unlock, Report_event_count (event_count s)]\<rparr>
   \<and> reported (hal_calls (monitor_task_body (run (map Notification ns) (monitor_task_body s))))
       = reported (hal_calls s)
           @ [event_count s, event_count (run (map Notification ns) (monitor_task_body s))]
   \<and> event_count (run (map Notification ns) (monitor_task_body s))
       = of_nat (sum_list (increments (map Notification ns) (monitor_task_body s)))
   \<and> unat (event_count (run (map Notification ns) (monitor_task_body s)))
         + 2 ^ 32 * wraps (map Notification ns) (monitor_task_body s)
       = sum_list (increments (map Notification ns) (monitor_task_body s))
   \<and> reported (hal_calls (monitor_task_body
         (run (map Notification ns) (event_monitor_init m input power_on))))
       = [event_count (run (map Notification ns) (event_monitor_init m input power_on))]
   \<and> event_count (run (map Notification ns) (event_monitor_init m input power_on))
       = of_nat (sum_list (increments (map Notification ns) (event_monitor_init m input power_on)))
   \<and> unat (event_count (run (map Notification ns) (event_monitor_init m input power_on)))
         + 2 ^ 32 * wraps (map Notification ns) (event_monitor_init m input power_on)
       = sum_list (increments (map Notification ns) (event_monitor_init m input power_on))
   \<and> hal_calls (monitor_task (Suc n) s)
       = hal_calls s
           @ [Rtos_task_delay_ms 1000, Rtos_mutex_lock, Rtos_mutex_unlock,
              Report_event_count (event_count s)]
           @ concat (replicate n [Rtos_task_delay_ms 1000, Rtos_mutex_lock,
                                  Rtos_mutex_unlock, Report_event_count 0])
   \<and> length (reported (hal_calls (monitor_task n s))) = length (reported (hal_calls s)) + n
   \<and> small_run [Task_go, Task_go, Task_go, Task_go, Task_go, Task_go] (quiescent s)
       = Some (quiescent (monitor_task_body s))
   \<and> (small_run as (quiescent s) = Some c \<longrightarrow>
        \<not> (isr_holds (isr c) \<and> task_holds (task c))
        \<and> (task_holds (task c) \<longrightarrow> mutex c = Some Task)
        \<and> (\<forall>v. task c = Task_reset v \<longrightarrow> event_count (mon c) = v)
        \<and> sum_list (reported (hal_calls (mon c))) + in_hand (task c) + event_count (mon c)
              + pending (isr c)
            = sum_list (reported (hal_calls s)) + event_count s
                + of_nat (sum_list (small_increments as (quiescent s))))"
proof (intro conjI impI)
  show "monitor_task_body s
     = s\<lparr>event_count := 0,
         hal_calls := hal_calls s @ [Rtos_task_delay_ms 1000, Rtos_mutex_lock,
                                     Rtos_mutex_unlock, Report_event_count (event_count s)]\<rparr>"
    by (rule body_eq)
next
  let ?t = "monitor_task_body s"
  have "reported (hal_calls (monitor_task_body (run (map Notification ns) ?t)))
          = reported (hal_calls (run (map Notification ns) ?t))
              @ [event_count (run (map Notification ns) ?t)]"
    by (simp add: body_eq reported_append)
  also have "reported (hal_calls (run (map Notification ns) ?t)) = reported (hal_calls ?t)"
    by (simp only: run_notifications)
  also have "reported (hal_calls ?t) = reported (hal_calls s) @ [event_count s]"
    by (simp add: body_eq reported_append)
  finally show "reported (hal_calls (monitor_task_body (run (map Notification ns) ?t)))
       = reported (hal_calls s) @ [event_count s, event_count (run (map Notification ns) ?t)]"
    by simp
next
  let ?t = "monitor_task_body s"
  have "event_count ?t = 0"
    by (simp add: body_eq)
  with run_notifications [of ns ?t]
  show "event_count (run (map Notification ns) ?t)
          = of_nat (sum_list (increments (map Notification ns) ?t))"
    by simp
next
  have "event_count (monitor_task_body s) = 0"
    by (simp add: body_eq)
  then show "unat (event_count (run (map Notification ns) (monitor_task_body s)))
         + 2 ^ 32 * wraps (map Notification ns) (monitor_task_body s)
       = sum_list (increments (map Notification ns) (monitor_task_body s))"
    by (rule notifications_count_nat)
next
  let ?t = "event_monitor_init m input power_on"
  have "reported (hal_calls (monitor_task_body (run (map Notification ns) ?t)))
          = reported (hal_calls (run (map Notification ns) ?t))
              @ [event_count (run (map Notification ns) ?t)]"
    by (simp add: body_eq reported_append)
  also have "reported (hal_calls (run (map Notification ns) ?t)) = reported (hal_calls ?t)"
    by (simp only: run_notifications)
  also have "reported (hal_calls ?t) = []"
    by (simp add: init_eq power_on_def)
  finally show "reported (hal_calls (monitor_task_body (run (map Notification ns) ?t)))
       = [event_count (run (map Notification ns) ?t)]"
    by simp
next
  let ?t = "event_monitor_init m input power_on"
  have "event_count ?t = 0"
    by (simp add: init_eq power_on_def)
  with run_notifications [of ns ?t]
  show "event_count (run (map Notification ns) ?t)
          = of_nat (sum_list (increments (map Notification ns) ?t))"
    by simp
next
  have "event_count (event_monitor_init m input power_on) = 0"
    by (simp add: init_eq power_on_def)
  then show "unat (event_count (run (map Notification ns) (event_monitor_init m input power_on)))
         + 2 ^ 32 * wraps (map Notification ns) (event_monitor_init m input power_on)
       = sum_list (increments (map Notification ns) (event_monitor_init m input power_on))"
    by (rule notifications_count_nat)
next
  have "event_count (monitor_task_body s) = 0"
    by (simp add: body_eq)
  from monitor_task_idle [OF this, of n]
  show "hal_calls (monitor_task (Suc n) s)
       = hal_calls s
           @ [Rtos_task_delay_ms 1000, Rtos_mutex_lock, Rtos_mutex_unlock,
              Report_event_count (event_count s)]
           @ concat (replicate n [Rtos_task_delay_ms 1000, Rtos_mutex_lock,
                                  Rtos_mutex_unlock, Report_event_count 0])"
    by (simp add: body_eq)
next
  show "length (reported (hal_calls (monitor_task n s))) = length (reported (hal_calls s)) + n"
  proof (induction n arbitrary: s)
    case 0
    show ?case
      by simp
  next
    case (Suc n)
    from Suc.IH [of "monitor_task_body s"] show ?case
      by (simp add: body_eq reported_append)
  qed
next
  show "small_run [Task_go, Task_go, Task_go, Task_go, Task_go, Task_go] (quiescent s)
       = Some (quiescent (monitor_task_body s))"
    by (rule whole_drain)
next
  assume r: "small_run as (quiescent s) = Some c"
  from small_run_account [OF r exclusive_quiescent] have e: "exclusive c"
    by simp
  from interleaved_no_loss(1) [OF r] show "\<not> (isr_holds (isr c) \<and> task_holds (task c))" .
  show "mutex c = Some Task" if "task_holds (task c)"
    using e that by (simp add: exclusive_def split: if_splits)
  show "\<forall>v. task c = Task_reset v \<longrightarrow> event_count (mon c) = v"
    using interleaved_no_loss(2) [OF r] by auto
  from interleaved_no_loss(3) [OF r]
  show "sum_list (reported (hal_calls (mon c))) + in_hand (task c) + event_count (mon c)
              + pending (isr c)
            = sum_list (reported (hal_calls s)) + event_count s
                + of_nat (sum_list (small_increments as (quiescent s)))" .
qed

theorem monitor_task_period_witness:
  "small_run [Task_go, Task_go, Notify 7, Task_go]
     (quiescent \<lparr>event_count = 2, monitored_mask = 0xF, previous_state = 3, hal_calls = []\<rparr>)
     = Some \<lparr>mon = \<lparr>event_count = 2, monitored_mask = 0xF, previous_state = 7,
                     hal_calls = [Rtos_task_delay_ms 1000, Rtos_mutex_lock]\<rparr>,
              isr = Isr_lock 4, task = Task_reset 2, mutex = Some Task\<rparr>
   \<and> \<not> (isr_holds (Isr_lock 4) \<and> task_holds (Task_reset 2))
   \<and> task_holds (Task_reset 2)
   \<and> sum_list (small_increments [Task_go, Task_go, Notify 7, Task_go]
        (quiescent \<lparr>event_count = 2, monitored_mask = 0xF, previous_state = 3,
                    hal_calls = []\<rparr>)) = 1
   \<and> sum_list (reported [Rtos_task_delay_ms 1000, Rtos_mutex_lock]) + in_hand (Task_reset 2)
       + 2 + pending (Isr_lock 4) = (3 :: uint32_t)
   \<and> wraps (map Notification [0, 3]) (event_monitor_init 0xF 0 power_on) = 0
   \<and> sum_list (increments (map Notification [0, 3]) (event_monitor_init 0xF 0 power_on)) = 2
   \<and> reported (hal_calls (monitor_task_body
         (run (map Notification [0, 3]) (event_monitor_init 0xF 0 power_on)))) = [2]"
proof -
  let ?t = "event_monitor_init 0xF 0 power_on"
  have w: "wraps (map Notification [0, 3]) ?t = 0"
    by (simp add: run_eval)
  have j: "sum_list (increments (map Notification [0, 3]) ?t) = 2"
    by (simp add: run_eval)
  from monitor_task_period [where ns = "[0, 3]" and m = "0xF" and input = 0]
  have "reported (hal_calls (monitor_task_body (run (map Notification [0, 3]) ?t)))
          = [event_count (run (map Notification [0, 3]) ?t)]"
    and "event_count (run (map Notification [0, 3]) ?t)
          = of_nat (sum_list (increments (map Notification [0, 3]) ?t))"
    by blast+
  then have k: "reported (hal_calls (monitor_task_body (run (map Notification [0, 3]) ?t))) = [2]"
    unfolding j by simp
  let ?s = "\<lparr>event_count = 2, monitored_mask = 0xF, previous_state = 3, hal_calls = []\<rparr>"
  let ?as = "[Task_go, Task_go, Notify 7, Task_go]"
  let ?c = "\<lparr>mon = \<lparr>event_count = 2, monitored_mask = 0xF, previous_state = 7,
                    hal_calls = [Rtos_task_delay_ms 1000, Rtos_mutex_lock]\<rparr>,
             isr = Isr_lock 4, task = Task_reset 2, mutex = Some Task\<rparr>"
  have r: "small_run ?as (quiescent ?s) = Some ?c"
    by (simp add: quiescent_def task_go_def notify_def Let_def call_def)
  have p: "popcount (rising 3 7 0xF) = 1"
    by (simp add: rising_def popcount_def upt_rec)
  have i: "sum_list (small_increments ?as (quiescent ?s)) = 1"
    using p by (simp add: quiescent_def task_go_def notify_def Let_def call_def)
  from monitor_task_period [where s = ?s and as = ?as and c = ?c] r
  have "\<not> (isr_holds (isr ?c) \<and> task_holds (task ?c))
        \<and> (task_holds (task ?c) \<longrightarrow> mutex ?c = Some Task)
        \<and> (\<forall>v. task ?c = Task_reset v \<longrightarrow> event_count (mon ?c) = v)
        \<and> sum_list (reported (hal_calls (mon ?c))) + in_hand (task ?c) + event_count (mon ?c)
              + pending (isr ?c)
            = sum_list (reported (hal_calls ?s)) + event_count ?s
                + of_nat (sum_list (small_increments ?as (quiescent ?s)))"
    by blast
  with r i w j k show ?thesis
    by simp
qed

text \<open>
  The value reported is not always the number of events accumulated. With every bit
  monitored and all inputs low at initialisation, \<open>2 ^ 27\<close> rounds of all 32 inputs rising
  and falling again produce \<open>2 ^ 32\<close> events before the first drain, and the first period
  reports 0.
\<close>

theorem monitor_task_period_counterexample:
  "reported (hal_calls (monitor_task_body
     (run (map Notification (concat (replicate (2 ^ 27) [0xFFFFFFFF, 0])))
          (event_monitor_init 0xFFFFFFFF 0 power_on)))) = [0]
   \<and> sum_list (increments (map Notification (concat (replicate (2 ^ 27) [0xFFFFFFFF, 0])))
                           (event_monitor_init 0xFFFFFFFF 0 power_on)) = 2 ^ 32
   \<and> map unat (reported (hal_calls (monitor_task_body
        (run (map Notification (concat (replicate (2 ^ 27) [0xFFFFFFFF, 0])))
             (event_monitor_init 0xFFFFFFFF 0 power_on)))))
     \<noteq> [sum_list (increments (map Notification (concat (replicate (2 ^ 27) [0xFFFFFFFF, 0])))
                              (event_monitor_init 0xFFFFFFFF 0 power_on))]"
proof -
  let ?s = "event_monitor_init (- 1) 0 power_on"
  let ?xs = "concat (replicate (2 ^ 27) [Notification (- 1), Notification 0])"
  have xs: "map Notification (concat (replicate k [- 1, 0]))
              = concat (replicate k [Notification (- 1), Notification 0])" for k
    by (induction k) simp_all
  have p: "previous_state ?s = 0" and m: "monitored_mask ?s = - 1"
    by (simp_all add: init_eq)
  have e: "event_count ?s = 0" and h: "reported (hal_calls ?s) = []"
    by (simp_all add: init_eq power_on_def)
  have n: "32 * (2 :: nat) ^ 27 = 2 ^ 32"
    by simp
  have z: "(of_nat (2 ^ 32) :: uint32_t) = 0"
    by simp
  from rise_fall_repeated [OF p m, of "2 ^ 27"]
  have "event_count (run ?xs ?s) = of_nat (2 ^ 32)"
    and c: "sum_list (increments ?xs ?s) = 2 ^ 32"
    unfolding e n by (simp_all only: add_0)
  then have b: "event_count (run ?xs ?s) = 0"
    using z by (simp only:)
  from reported_rise_fall_repeated [OF p m, of "2 ^ 27"]
  have a: "reported (hal_calls (run ?xs ?s)) = []"
    unfolding h .
  have "reported (hal_calls (monitor_task_body (run ?xs ?s)))
          = reported (hal_calls (run ?xs ?s)) @ [event_count (run ?xs ?s)]"
    by (simp add: body_eq reported_append)
  then have d: "reported (hal_calls (monitor_task_body (run ?xs ?s))) = [0]"
    unfolding a b by simp
  have f: "map unat (reported (hal_calls (monitor_task_body (run ?xs ?s))))
             \<noteq> [sum_list (increments ?xs ?s)]"
    unfolding d c by simp
  from d c f show ?thesis
    unfolding all_ones xs by (intro conjI)
qed

section \<open>The scenarios of the test suite\<close>

text \<open>
  The six tests of \<open>test_event_monitor.c\<close>: initialisation with the inputs low, the
  simulated input changes, then one drain. Each reports the total the test expects.
\<close>

lemma test_rising_edge_detection:
  "reported (hal_calls (run [Notification 0x00, Notification 0x03, Notification 0x07,
                             Notification 0x07, Notification 0x05, Notification 0x0F,
                             Trigger_report] (event_monitor_init 0x0F 0 power_on))) = [5]"
  by (simp add: run_eval)

lemma test_mask_filtering:
  "reported (hal_calls (run [Notification 0x00, Notification 0x0F, Trigger_report]
                            (event_monitor_init 0x05 0 power_on))) = [2]"
  by (simp add: run_eval)

lemma test_no_monitored_pins:
  "reported (hal_calls (run [Notification 0x00, Notification 0xFF, Trigger_report]
                            (event_monitor_init 0x00 0 power_on))) = [0]"
  by (simp add: run_eval)

lemma test_edge_transition_logic:
  "reported (hal_calls (run [Notification 0x00, Notification 0x01, Notification 0x03,
                             Notification 0x01, Notification 0x03, Trigger_report]
                            (event_monitor_init 0xFF 0 power_on))) = [3]"
  by (simp add: run_eval)

lemma test_multiple_bits_simultaneous:
  "reported (hal_calls (run [Notification 0x00, Notification 0xFF, Trigger_report]
                            (event_monitor_init 0xFF 0 power_on))) = [8]"
  by (simp add: run_eval)

lemma test_partial_mask_with_mixed_transitions:
  "reported (hal_calls (run [Notification 0x00, Notification 0x0F, Notification 0xFF,
                             Notification 0x0F, Notification 0xFF, Trigger_report]
                            (event_monitor_init 0xF0 0 power_on))) = [8]"
  by (simp add: run_eval)

end
